theory Spec2Isabelle
  imports Complex_Main "HOL-Library.AList"
begin

section \<open>Host-language strings and integers\<close>

text \<open>
  A JavaScript string is modelled as a list of code units, restricted to the code units
  below 256 (\<^typ>\<open>char\<close>). Row and column numbers are modelled as mathematical integers:
  the model is exact for the integers that a JavaScript number represents exactly and
  prints in plain decimal notation.
\<close>

definition charCodeAt :: "char \<Rightarrow> int" where
  "charCodeAt c = of_char c"

definition fromCharCode :: "int \<Rightarrow> char" where
  "fromCharCode n = char_of n"

text \<open>The character classes of the regular expressions: \<open>[A-Z]\<close> and \<open>\d\<close>.\<close>

definition is_upper :: "char \<Rightarrow> bool" where
  "is_upper c = (65 \<le> charCodeAt c \<and> charCodeAt c \<le> 90)"

definition is_digit :: "char \<Rightarrow> bool" where
  "is_digit c = (48 \<le> charCodeAt c \<and> charCodeAt c \<le> 57)"

text \<open>\<open>parseInt(s, 10)\<close> on a string of decimal digits.\<close>

definition parseInt :: "string \<Rightarrow> int" where
  "parseInt s = foldl (\<lambda>n c. n * 10 + (charCodeAt c - 48)) 0 s"

text \<open>Number-to-string conversion of an integer, as a template literal performs it.\<close>

fun nat_to_string :: "nat \<Rightarrow> string" where
  "nat_to_string n =
     (if n < 10 then [fromCharCode (48 + int n)]
      else nat_to_string (n div 10) @ [fromCharCode (48 + int (n mod 10))])"

declare nat_to_string.simps [simp del]

definition int_to_string :: "int \<Rightarrow> string" where
  "int_to_string i = (if i < 0 then CHR ''-'' # nat_to_string (nat (- i)) else nat_to_string (nat i))"

section \<open>Reference codec (utils.ts)\<close>

record CellPosition =
  row :: int
  column :: int

datatype error =
    InvalidCellReference string
  | InvalidRowNumber int
  | RowColumnBelowOne

definition columnLetterToNumber :: "string \<Rightarrow> int" where
  "columnLetterToNumber letter =
     foldl (\<lambda>result c. result * 26 + (charCodeAt c - charCodeAt (CHR ''A'') + 1)) 0 letter"

function columnNumberToLetter_loop :: "int \<Rightarrow> string \<Rightarrow> string" where
  "columnNumberToLetter_loop num result =
     (if num > 0
      then columnNumberToLetter_loop ((num - 1) div 26)
             (fromCharCode (charCodeAt (CHR ''A'') + (num - 1) mod 26) # result)
      else result)"
  by pat_completeness auto
termination
  by (relation "measure (\<lambda>(num, result). nat num)") auto

definition columnNumberToLetter :: "int \<Rightarrow> string" where
  "columnNumberToLetter num = columnNumberToLetter_loop num []"

text \<open>
  The match of \<open>/^([A-Z]+)(\d+)$/\<close>: the longest prefix of upper-case letters, then
  decimal digits up to the end of the string, both non-empty.
\<close>

definition match_cell_reference :: "string \<Rightarrow> (string \<times> string) option" where
  "match_cell_reference cellRef =
     (let columnStr = takeWhile is_upper cellRef;
          rowStr = dropWhile is_upper cellRef
      in if columnStr \<noteq> [] \<and> rowStr \<noteq> [] \<and> list_all is_digit rowStr
         then Some (columnStr, rowStr) else None)"

definition parseCellReference :: "string \<Rightarrow> error + CellPosition" where
  "parseCellReference cellRef =
     (case match_cell_reference cellRef of
        None \<Rightarrow> Inl (InvalidCellReference cellRef)
      | Some (columnStr, rowStr) \<Rightarrow>
          (let col = columnLetterToNumber columnStr;
               r = parseInt rowStr
           in if r < 1 then Inl (InvalidRowNumber r)
              else Inr \<lparr>row = r, column = col\<rparr>))"

definition positionToCellReference :: "CellPosition \<Rightarrow> error + string" where
  "positionToCellReference position =
     (if row position < 1 \<or> column position < 1 then Inl RowColumnBelowOne
      else Inr (columnNumberToLetter (column position) @ int_to_string (row position)))"

definition isValidCellReference :: "string \<Rightarrow> bool" where
  "isValidCellReference cellRef =
     (case parseCellReference cellRef of Inr _ \<Rightarrow> True | Inl _ \<Rightarrow> False)"

text \<open>The second capture group of the match: what follows the leading upper-case letters.\<close>

definition rowPart :: "string \<Rightarrow> string" where
  "rowPart cellRef = dropWhile is_upper cellRef"

text \<open>
  The grammar as the specification words it: one or more upper-case letters followed by
  one or more digits, and nothing else.
\<close>

definition reference_grammar :: "string \<Rightarrow> bool" where
  "reference_grammar s =
     (\<exists>ls ds. s = ls @ ds \<and> ls \<noteq> [] \<and> ds \<noteq> [] \<and> list_all is_upper ls \<and> list_all is_digit ds)"

section \<open>Cell values\<close>

text \<open>
  A cell holds any JavaScript value. A finite number is modelled by the decimal value it
  denotes, a rational; rounding to the nearest double is not modelled, overflow to an
  infinity is. An object is modelled by the list of its own enumerable properties in
  enumeration order, each key once.
\<close>

datatype jsnum = Finite rat | PosInfinity | NegInfinity | NaN

datatype jsval =
    VUndefined
  | VNull
  | VBool bool
  | VNum jsnum
  | VStr string
  | VObj "(string \<times> jsval) list"

type_synonym CellData = "(string \<times> jsval) list"

definition isNaN :: "jsnum \<Rightarrow> bool" where
  "isNaN n = (n = NaN)"

text \<open>
  \<open>String(n)\<close> for a number. A finite number other than an integer below \<open>10^21\<close> is
  printed from its decimal digits with a decimal point or an exponent, following the
  host's number-to-string conversion; the search for the digits is bounded.
\<close>

fun decimal_scale :: "nat \<Rightarrow> rat \<Rightarrow> nat" where
  "decimal_scale 0 q = 0"
| "decimal_scale (Suc fuel) q =
     (if q = of_int \<lfloor>q\<rfloor> then 0 else Suc (decimal_scale fuel (q * 10)))"

definition positive_to_string :: "rat \<Rightarrow> string" where
  "positive_to_string q =
     (let e = decimal_scale 400 q;
          ds = nat_to_string (nat \<lfloor>q * 10 ^ e\<rfloor>);
          s = rev (dropWhile (\<lambda>c. c = CHR ''0'') (rev ds));
          k = int (length s);
          n = int (length ds) - int e
      in if k \<le> n \<and> n \<le> 21 then s @ replicate (nat (n - k)) (CHR ''0'')
         else if 0 < n \<and> n \<le> 21 then take (nat n) s @ ''.'' @ drop (nat n) s
         else if - 6 < n \<and> n \<le> 0 then ''0.'' @ replicate (nat (- n)) (CHR ''0'') @ s
         else (if k = 1 then s else hd s # ''.'' @ tl s)
              @ ''e'' @ (if 0 \<le> n - 1 then ''+'' else ''-'') @ nat_to_string (nat \<bar>n - 1\<bar>))"

definition numberToString :: "jsnum \<Rightarrow> string" where
  "numberToString n =
     (case n of
        NaN \<Rightarrow> ''NaN''
      | PosInfinity \<Rightarrow> ''Infinity''
      | NegInfinity \<Rightarrow> ''-Infinity''
      | Finite q \<Rightarrow>
          (if q = of_int \<lfloor>q\<rfloor> \<and> \<bar>q\<bar> < 10 ^ 21 then int_to_string \<lfloor>q\<rfloor>
           else if q < 0 then CHR ''-'' # positive_to_string (- q)
           else positive_to_string q))"

text \<open>\<open>String(value)\<close>.\<close>

definition toString :: "jsval \<Rightarrow> string" where
  "toString v =
     (case v of
        VUndefined \<Rightarrow> ''undefined''
      | VNull \<Rightarrow> ''null''
      | VBool b \<Rightarrow> (if b then ''true'' else ''false'')
      | VNum n \<Rightarrow> numberToString n
      | VStr s \<Rightarrow> s
      | VObj ps \<Rightarrow> ''[object Object]'')"

text \<open>The truth value a condition gives a value.\<close>

definition truthy :: "jsval \<Rightarrow> bool" where
  "truthy v =
     (case v of
        VUndefined \<Rightarrow> False
      | VNull \<Rightarrow> False
      | VBool b \<Rightarrow> b
      | VNum n \<Rightarrow> n \<noteq> Finite 0 \<and> n \<noteq> NaN
      | VStr s \<Rightarrow> s \<noteq> []
      | VObj ps \<Rightarrow> True)"

text \<open>
  The own enumerable properties that an object spread \<open>{ ...v }\<close> copies: those of an
  object, the indexed characters of a string, none of another primitive.
\<close>

definition spread :: "jsval \<Rightarrow> CellData" where
  "spread v =
     (case v of
        VObj ps \<Rightarrow> ps
      | VStr s \<Rightarrow> map (\<lambda>(i, c). (nat_to_string i, VStr [c])) (enumerate 0 s)
      | _ \<Rightarrow> [])"

text \<open>Property read \<open>obj[key]\<close>, property write, \<open>delete\<close> and \<open>Object.assign\<close>.\<close>

definition obj_get :: "CellData \<Rightarrow> string \<Rightarrow> jsval" where
  "obj_get obj k = (case map_of obj k of None \<Rightarrow> VUndefined | Some v \<Rightarrow> v)"

definition obj_set :: "string \<Rightarrow> jsval \<Rightarrow> CellData \<Rightarrow> CellData" where
  "obj_set k v obj = AList.update k v obj"

definition obj_delete :: "string \<Rightarrow> CellData \<Rightarrow> CellData" where
  "obj_delete k obj = AList.delete k obj"

definition object_assign :: "CellData \<Rightarrow> CellData \<Rightarrow> CellData" where
  "object_assign target source = fold (\<lambda>(k, v) obj. obj_set k v obj) source target"

text \<open>White space as \<open>trim\<close> sees it, and \<open>toLowerCase\<close>, on code units below 256.\<close>

definition is_space :: "char \<Rightarrow> bool" where
  "is_space c = (charCodeAt c \<in> {9, 10, 11, 12, 13, 32, 160})"

definition trim :: "string \<Rightarrow> string" where
  "trim s = rev (dropWhile is_space (rev (dropWhile is_space s)))"

definition lower_char :: "char \<Rightarrow> char" where
  "lower_char c =
     (let n = charCodeAt c
      in if (65 \<le> n \<and> n \<le> 90) \<or> (192 \<le> n \<and> n \<le> 222 \<and> n \<noteq> 215)
         then fromCharCode (n + 32) else c)"

definition toLowerCase :: "string \<Rightarrow> string" where
  "toLowerCase s = map lower_char s"

section \<open>Value coercion and CSV text (utils.ts)\<close>

text \<open>The test of \<open>/^-?\d+\.?\d*$/\<close>.\<close>

definition unsigned_part :: "string \<Rightarrow> string" where
  "unsigned_part v = (if v \<noteq> [] \<and> hd v = CHR ''-'' then tl v else v)"

definition fraction_part :: "string \<Rightarrow> string" where
  "fraction_part v =
     (let rest = dropWhile is_digit (unsigned_part v)
      in if rest \<noteq> [] \<and> hd rest = CHR ''.'' then tl rest else rest)"

definition is_number_text :: "string \<Rightarrow> bool" where
  "is_number_text v =
     (takeWhile is_digit (unsigned_part v) \<noteq> [] \<and> list_all is_digit (fraction_part v))"

text \<open>
  \<open>Number(value)\<close> for a text that passes the test above, the only texts it is called
  on: the decimal value, or an infinity from the magnitude that rounds to one.
\<close>

definition Number :: "string \<Rightarrow> jsnum" where
  "Number v =
     (let negative = (v \<noteq> [] \<and> hd v = CHR ''-'');
          ip = takeWhile is_digit (unsigned_part v);
          fp = fraction_part v;
          magnitude = of_int (parseInt ip) + of_int (parseInt fp) / 10 ^ length fp
      in if magnitude \<ge> 2 ^ 1024 - 2 ^ 970
         then (if negative then NegInfinity else PosInfinity)
         else Finite (if negative then - magnitude else magnitude))"

definition parseValue :: "string \<Rightarrow> jsval" where
  "parseValue v =
     (if v = [] then VNull
      else if is_number_text v \<and> \<not> isNaN (Number v) then VNum (Number v)
      else (let lower = toLowerCase v
            in if lower = ''true'' then VBool True
               else if lower = ''false'' then VBool False
               else VStr v))"

definition replace_quotes :: "string \<Rightarrow> string" where
  "replace_quotes str = concat (map (\<lambda>c. if c = CHR 0x22 then [CHR 0x22, CHR 0x22] else [c]) str)"

definition escapeCsvValue :: "jsval \<Rightarrow> string" where
  "escapeCsvValue v =
     (if v = VNull \<or> v = VUndefined then []
      else (let str = toString v
            in if CHR '','' \<in> set str \<or> CHR 0x22 \<in> set str \<or> CHR 0x0A \<in> set str \<or> CHR 0x0D \<in> set str
               then CHR 0x22 # replace_quotes str @ [CHR 0x22]
               else str))"

text \<open>\<open>csvString.split(/\r?\n/)\<close>: the pieces between line breaks, never an empty list.\<close>

fun split_lines :: "string \<Rightarrow> string list" where
  "split_lines [] = [[]]"
| "split_lines (c # cs) =
     (if c = CHR 0x0A then [] # split_lines cs
      else if c = CHR 0x0D \<and> cs \<noteq> [] \<and> hd cs = CHR 0x0A then [] # split_lines (tl cs)
      else (case split_lines cs of l # ls \<Rightarrow> (c # l) # ls | [] \<Rightarrow> [[c]]))"

text \<open>
  The loop of \<open>parseCsvLine\<close> over the characters not yet read, with the fields
  finished so far, the current field and the quoting state.
\<close>

fun parseCsvLine_loop :: "string \<Rightarrow> string \<Rightarrow> string list \<Rightarrow> string \<Rightarrow> bool \<Rightarrow> string list" where
  "parseCsvLine_loop separator [] result current inQuotes = result @ [current]"
| "parseCsvLine_loop separator (c # cs) result current inQuotes =
     (if c = CHR 0x22 then
        (if inQuotes \<and> cs \<noteq> [] \<and> hd cs = CHR 0x22
         then parseCsvLine_loop separator (tl cs) result (current @ [CHR 0x22]) inQuotes
         else parseCsvLine_loop separator cs result current (\<not> inQuotes))
      else if [c] = separator \<and> \<not> inQuotes
      then parseCsvLine_loop separator cs (result @ [current]) [] inQuotes
      else parseCsvLine_loop separator cs result (current @ [c]) inQuotes)"

definition parseCsvLine :: "string \<Rightarrow> string \<Rightarrow> string list" where
  "parseCsvLine line separator = parseCsvLine_loop separator line [] [] False"

definition parseCsvString :: "string \<Rightarrow> string \<Rightarrow> string list list" where
  "parseCsvString csvString separator =
     (if trim csvString = [] then []
      else map (\<lambda>line. parseCsvLine line separator)
             (filter (\<lambda>line. trim line \<noteq> []) (split_lines csvString)))"

text \<open>\<open>Array.prototype.join\<close> on strings.\<close>

fun join :: "string \<Rightarrow> string list \<Rightarrow> string" where
  "join sep [] = []"
| "join sep [x] = x"
| "join sep (x # y # ys) = x @ sep @ join sep (y # ys)"

section \<open>The table (A1.ts)\<close>

text \<open>
  An instance of the class is modelled by its only field, \<open>data\<close>. A method takes the
  field and returns what it returns or throws, and the field afterwards when it assigns.
\<close>

type_synonym 'a result = "error + 'a"

text \<open>
  An options object: an absent property takes the default of the destructuring. The two
  option types share the property \<open>separator\<close>; \<open>startRow\<close> is an integer, as a row
  number is.
\<close>

definition with_default :: "'a \<Rightarrow> 'a option \<Rightarrow> 'a" where
  "with_default d x = (case x of None \<Rightarrow> d | Some y \<Rightarrow> y)"

record SeparatorOption =
  separator :: "string option"

record CSVOptions = SeparatorOption +
  includeHeaders :: "bool option"
  lineEnding :: "string option"
  startFromColumnA :: "bool option"

record CSVImportOptions = SeparatorOption +
  hasHeaders :: "bool option"
  startRow :: "int option"
  startColumn :: "string option"

definition no_csv_options :: CSVOptions where
  "no_csv_options =
     \<lparr>separator = None, includeHeaders = None, lineEnding = None, startFromColumnA = None\<rparr>"

definition no_import_options :: CSVImportOptions where
  "no_import_options =
     \<lparr>separator = None, hasHeaders = None, startRow = None, startColumn = None\<rparr>"

text \<open>The loop that looks for a key that is not a cell reference, in enumeration order.\<close>

definition first_invalid :: "string list \<Rightarrow> string option" where
  "first_invalid cellRefs = find (\<lambda>cellRef. \<not> isValidCellReference cellRef) cellRefs"

definition validateCellReferences :: "CellData \<Rightarrow> unit result" where
  "validateCellReferences d =
     (case first_invalid (map fst d) of
        Some cellRef \<Rightarrow> Inl (InvalidCellReference cellRef)
      | None \<Rightarrow> Inr ())"

definition constructor :: "CellData option \<Rightarrow> CellData result" where
  "constructor initialData =
     (let d = (case initialData of
                 None \<Rightarrow> []
               | Some obj \<Rightarrow>
                   if ''data'' \<in> fst ` set obj
                   then (if truthy (obj_get obj ''data'') then spread (obj_get obj ''data'') else [])
                   else obj)
      in case validateCellReferences d of Inl e \<Rightarrow> Inl e | Inr u \<Rightarrow> Inr d)"

definition set_A1 :: "CellData \<Rightarrow> CellData \<Rightarrow> unit result \<times> CellData" where
  "set_A1 cellData d =
     (case first_invalid (map fst cellData) of
        Some cellRef \<Rightarrow> (Inl (InvalidCellReference cellRef), d)
      | None \<Rightarrow> (Inr (), object_assign d cellData))"

definition setItem :: "string \<Rightarrow> jsval \<Rightarrow> CellData \<Rightarrow> unit result \<times> CellData" where
  "setItem cellRef v d =
     (if \<not> isValidCellReference cellRef then (Inl (InvalidCellReference cellRef), d)
      else (Inr (), obj_set cellRef v d))"

definition getItem :: "string \<Rightarrow> CellData \<Rightarrow> jsval result" where
  "getItem cellRef d =
     (if \<not> isValidCellReference cellRef then Inl (InvalidCellReference cellRef)
      else Inr (obj_get d cellRef))"

definition removeItem :: "string \<Rightarrow> CellData \<Rightarrow> unit result \<times> CellData" where
  "removeItem cellRef d =
     (if \<not> isValidCellReference cellRef then (Inl (InvalidCellReference cellRef), d)
      else (Inr (), obj_delete cellRef d))"

definition clear :: "CellData \<Rightarrow> CellData" where
  "clear d = []"

definition size_A1 :: "CellData \<Rightarrow> nat" where
  "size_A1 d = length (map fst d)"

definition isEmpty :: "CellData \<Rightarrow> bool" where
  "isEmpty d = (size_A1 d = 0)"

definition getCellReferences :: "CellData \<Rightarrow> string list" where
  "getCellReferences d = map fst d"

definition toCompactArray :: "CellData \<Rightarrow> (string \<times> jsval) list" where
  "toCompactArray d = d"

text \<open>A loop body that may throw, run over a list: the first throw ends the loop.\<close>

fun map_result :: "('a \<Rightarrow> 'b result) \<Rightarrow> 'a list \<Rightarrow> 'b list result" where
  "map_result f [] = Inr []"
| "map_result f (x # xs) =
     (case f x of
        Inl e \<Rightarrow> Inl e
      | Inr y \<Rightarrow> (case map_result f xs of Inl e \<Rightarrow> Inl e | Inr ys \<Rightarrow> Inr (y # ys)))"

record BoundingBox =
  minRow :: int
  maxRow :: int
  minCol :: int
  maxCol :: int

definition getBoundingBox :: "CellData \<Rightarrow> BoundingBox option result" where
  "getBoundingBox d =
     (let cellRefs = map fst d
      in if length cellRefs = 0 then Inr None
         else (case map_result parseCellReference cellRefs of
                 Inl e \<Rightarrow> Inl e
               | Inr positions \<Rightarrow>
                   Inr (Some \<lparr>minRow = Min (set (map row positions)),
                              maxRow = Max (set (map row positions)),
                              minCol = Min (set (map column positions)),
                              maxCol = Max (set (map column positions))\<rparr>)))"

text \<open>\<open>ref.replace(/\d+$/, "")\<close>: the reference without its trailing digits.\<close>

definition strip_trailing_digits :: "string \<Rightarrow> string" where
  "strip_trailing_digits s = rev (dropWhile is_digit (rev s))"

definition csv_header :: "int \<Rightarrow> string result" where
  "csv_header col =
     (case positionToCellReference \<lparr>row = 1, column = col\<rparr> of
        Inl e \<Rightarrow> Inl e
      | Inr cellRef \<Rightarrow> Inr (strip_trailing_digits cellRef))"

definition csv_cell :: "CellData \<Rightarrow> int \<Rightarrow> int \<Rightarrow> string result" where
  "csv_cell d r col =
     (case positionToCellReference \<lparr>row = r, column = col\<rparr> of
        Inl e \<Rightarrow> Inl e
      | Inr cellRef \<Rightarrow> Inr (escapeCsvValue (obj_get d cellRef)))"

definition csv_row :: "CellData \<Rightarrow> string \<Rightarrow> int \<Rightarrow> int \<Rightarrow> int \<Rightarrow> string result" where
  "csv_row d sep startCol endCol r =
     (case map_result (csv_cell d r) [startCol..endCol] of
        Inl e \<Rightarrow> Inl e
      | Inr rowData \<Rightarrow> Inr (join sep rowData))"

definition toCSVString :: "CSVOptions \<Rightarrow> CellData \<Rightarrow> string result" where
  "toCSVString options d =
     (let sep = with_default '','' (separator options);
          headers = with_default False (includeHeaders options);
          ending = with_default [CHR 0x0A] (lineEnding options);
          fromA = with_default True (startFromColumnA options)
      in case getBoundingBox d of
           Inl e \<Rightarrow> Inl e
         | Inr None \<Rightarrow> Inr []
         | Inr (Some bounds) \<Rightarrow>
             (let startCol = (if fromA then 1 else minCol bounds)
              in case (if headers
                       then (case map_result csv_header [startCol..maxCol bounds] of
                               Inl e \<Rightarrow> Inl e
                             | Inr hs \<Rightarrow> Inr [join sep hs])
                       else Inr []) of
                   Inl e \<Rightarrow> Inl e
                 | Inr headerRows \<Rightarrow>
                     (case map_result (csv_row d sep startCol (maxCol bounds))
                             [minRow bounds..maxRow bounds] of
                        Inl e \<Rightarrow> Inl e
                      | Inr dataRows \<Rightarrow> Inr (join ending (headerRows @ dataRows)))))"

text \<open>\<open>toArray\<close>: an absent cell, or one holding null or undefined, reads as null.\<close>

definition nullish_to_null :: "jsval \<Rightarrow> jsval" where
  "nullish_to_null v = (if v = VUndefined \<or> v = VNull then VNull else v)"

definition array_cell :: "CellData \<Rightarrow> int \<Rightarrow> int \<Rightarrow> jsval result" where
  "array_cell d r col =
     (case positionToCellReference \<lparr>row = r, column = col\<rparr> of
        Inl e \<Rightarrow> Inl e
      | Inr cellRef \<Rightarrow> Inr (nullish_to_null (obj_get d cellRef)))"

definition toArray :: "bool \<Rightarrow> CellData \<Rightarrow> jsval list list result" where
  "toArray fromA d =
     (case getBoundingBox d of
        Inl e \<Rightarrow> Inl e
      | Inr None \<Rightarrow> Inr []
      | Inr (Some bounds) \<Rightarrow>
          (let startCol = (if fromA then 1 else minCol bounds)
           in map_result (\<lambda>r. map_result (array_cell d r) [startCol..maxCol bounds])
                [minRow bounds..maxRow bounds]))"

text \<open>
  The two loops of \<open>loadFromCSVString\<close>, over the fields of a row and over the rows,
  with the index reached. A throw leaves the cells stored so far.
\<close>

fun load_fields :: "int \<Rightarrow> int \<Rightarrow> nat \<Rightarrow> string list \<Rightarrow> CellData \<Rightarrow> unit result \<times> CellData" where
  "load_fields actualRow startColNum colIndex [] d = (Inr (), d)"
| "load_fields actualRow startColNum colIndex (rawValue # rest) d =
     (case positionToCellReference \<lparr>row = actualRow, column = startColNum + int colIndex\<rparr> of
        Inl e \<Rightarrow> (Inl e, d)
      | Inr cellRef \<Rightarrow>
          (let parsedValue = parseValue rawValue
           in load_fields actualRow startColNum (Suc colIndex) rest
                (if parsedValue \<noteq> VNull then obj_set cellRef parsedValue d else d)))"

fun load_rows :: "int \<Rightarrow> int \<Rightarrow> nat \<Rightarrow> string list list \<Rightarrow> CellData \<Rightarrow> unit result \<times> CellData" where
  "load_rows startR startColNum rowIndex [] d = (Inr (), d)"
| "load_rows startR startColNum rowIndex (r # rest) d =
     (case load_fields (startR + int rowIndex) startColNum 0 r d of
        (Inl e, d') \<Rightarrow> (Inl e, d')
      | (Inr u, d') \<Rightarrow> load_rows startR startColNum (Suc rowIndex) rest d')"

definition loadFromCSVString :: "string \<Rightarrow> CSVImportOptions \<Rightarrow> CellData \<Rightarrow> unit result \<times> CellData" where
  "loadFromCSVString csvString options d =
     (let sep = with_default '','' (separator options);
          headers = with_default False (hasHeaders options);
          startR = with_default 1 (startRow options);
          startC = with_default ''A'' (startColumn options);
          rows = parseCsvString csvString sep
      in if length rows = 0 then (Inr (), d)
         else (let startColNum = columnLetterToNumber startC;
                   dataRows = (if headers then drop 1 rows else rows)
               in load_rows startR startColNum 0 dataRows (clear d)))"

definition fromCSVString :: "string \<Rightarrow> CSVImportOptions \<Rightarrow> CellData result" where
  "fromCSVString csvString options =
     (case constructor None of
        Inl e \<Rightarrow> Inl e
      | Inr d \<Rightarrow>
          (case loadFromCSVString csvString options d of
             (Inl e, d') \<Rightarrow> Inl e
           | (Inr u, d') \<Rightarrow> Inr d'))"

section \<open>Sequences of public operations\<close>




text \<open>
  The pattern \<open>/^-?\d+\.?\d*$/\<close> in words: an optional minus sign, one or more digits,
  then nothing, or a point followed by any number of digits.
\<close>

definition number_pattern :: "string \<Rightarrow> bool" where
  "number_pattern s =
     (\<exists>mi ip rest. s = mi @ ip @ rest \<and> (mi = [] \<or> mi = ''-'')
        \<and> ip \<noteq> [] \<and> list_all is_digit ip
        \<and> (rest = [] \<or> (\<exists>fp. rest = CHR ''.'' # fp \<and> list_all is_digit fp)))"

text \<open>
  The grammar as the specification words it, \<open>-?digits(.digits)?\<close>: a point is
  followed by at least one digit.
\<close>

definition claimed_number_grammar :: "string \<Rightarrow> bool" where
  "claimed_number_grammar s =
     (\<exists>mi ip rest. s = mi @ ip @ rest \<and> (mi = [] \<or> mi = ''-'')
        \<and> ip \<noteq> [] \<and> list_all is_digit ip
        \<and> (rest = [] \<or> (\<exists>fp. rest = CHR ''.'' # fp \<and> fp \<noteq> [] \<and> list_all is_digit fp)))"

section \<open>The CSV round trip\<close>






section \<open>Properties of the reference codec\<close>















lemma is_digit_not_upper: "is_digit c \<Longrightarrow> \<not> is_upper c"
  by (simp add: is_digit_def is_upper_def)

lemma parseInt_snoc: "parseInt (xs @ [c]) = parseInt xs * 10 + (charCodeAt c - 48)"
  by (simp add: parseInt_def)

lemma parseInt_nonneg: "list_all is_digit ds \<Longrightarrow> 0 \<le> parseInt ds"
proof (induction ds rule: rev_induct)
  case Nil
  then show ?case by (simp add: parseInt_def)
next
  case (snoc c ds)
  then show ?case by (simp add: parseInt_snoc is_digit_def)
qed






lemma takeWhile_upper_digits:
  "list_all is_upper ls \<Longrightarrow> list_all is_digit ds \<Longrightarrow> takeWhile is_upper (ls @ ds) = ls"
  by (induction ls) (auto simp: takeWhile_eq_Nil_iff list_all_iff dest: is_digit_not_upper)

lemma dropWhile_upper_digits:
  "list_all is_upper ls \<Longrightarrow> list_all is_digit ds \<Longrightarrow> dropWhile is_upper (ls @ ds) = ds"
  by (induction ls) (auto simp: dropWhile_eq_self_iff list_all_iff dest: is_digit_not_upper)

lemma match_cell_reference_parts:
  "list_all is_upper ls \<Longrightarrow> list_all is_digit ds \<Longrightarrow> ls \<noteq> [] \<Longrightarrow> ds \<noteq> [] \<Longrightarrow>
     match_cell_reference (ls @ ds) = Some (ls, ds)"
  by (simp add: match_cell_reference_def takeWhile_upper_digits dropWhile_upper_digits)

lemma match_cell_reference_Some:
  "match_cell_reference s = Some (ls, ds) \<Longrightarrow>
     s = ls @ ds \<and> ls \<noteq> [] \<and> ds \<noteq> [] \<and> list_all is_upper ls \<and> list_all is_digit ds"
  by (auto simp: match_cell_reference_def Let_def list_all_iff
           split: if_splits dest: set_takeWhileD)

lemma match_cell_reference_rowPart:
  "match_cell_reference s = Some (ls, ds) \<Longrightarrow> rowPart s = ds"
  by (auto simp: match_cell_reference_def Let_def rowPart_def split: if_splits)

lemma match_cell_reference_grammar:
  "match_cell_reference s \<noteq> None \<longleftrightarrow> reference_grammar s"
proof
  assume "match_cell_reference s \<noteq> None"
  then obtain ls ds where "match_cell_reference s = Some (ls, ds)" by auto
  from match_cell_reference_Some [OF this] show "reference_grammar s"
    unfolding reference_grammar_def by blast
next
  assume "reference_grammar s"
  then show "match_cell_reference s \<noteq> None"
    unfolding reference_grammar_def by (auto simp: match_cell_reference_parts)
qed







text \<open>
  C7: decoding fails with the format error exactly when the input is outside the grammar,
  with the row error exactly when the input is in the grammar and its row is below 1, and
  succeeds otherwise; encoding fails exactly when the row or the column is below 1.
\<close>

theorem codec_errors:
  "(parseCellReference s = Inl (InvalidCellReference s) \<longleftrightarrow> \<not> reference_grammar s)
   \<and> ((\<exists>n. parseCellReference s = Inl (InvalidRowNumber n)) \<longleftrightarrow>
        reference_grammar s \<and> parseInt (rowPart s) < 1)
   \<and> ((\<exists>p. parseCellReference s = Inr p) \<longleftrightarrow>
        reference_grammar s \<and> 1 \<le> parseInt (rowPart s))
   \<and> (positionToCellReference p = Inl RowColumnBelowOne \<longleftrightarrow> row p < 1 \<or> column p < 1)
   \<and> ((\<exists>t. positionToCellReference p = Inr t) \<longleftrightarrow> 1 \<le> row p \<and> 1 \<le> column p)"
proof -
  have enc: "(positionToCellReference p = Inl RowColumnBelowOne \<longleftrightarrow> row p < 1 \<or> column p < 1)
      \<and> ((\<exists>t. positionToCellReference p = Inr t) \<longleftrightarrow> 1 \<le> row p \<and> 1 \<le> column p)"
    by (auto simp: positionToCellReference_def)
  show ?thesis
  proof (cases "match_cell_reference s")
    case None
    then have g: "\<not> reference_grammar s"
      using match_cell_reference_grammar [of s] by simp
    with None enc show ?thesis
      by (simp add: parseCellReference_def)
  next
    case (Some a)
    obtain ls ds where a: "a = (ls, ds)" by (cases a)
    have m: "match_cell_reference s = Some (ls, ds)" using Some a by simp
    have g: "reference_grammar s"
      using match_cell_reference_grammar [of s] m by simp
    have rp: "rowPart s = ds" by (rule match_cell_reference_rowPart [OF m])
    show ?thesis
      using enc g by (auto simp: parseCellReference_def m rp Let_def)
  qed
qed

theorem codec_errors_witness:
  "parseCellReference ''1A'' = Inl (InvalidCellReference ''1A'')
   \<and> parseCellReference ''A0'' = Inl (InvalidRowNumber 0)
   \<and> parseCellReference ''B2'' = Inr \<lparr>row = 2, column = 2\<rparr>
   \<and> positionToCellReference \<lparr>row = 0, column = 1\<rparr> = Inl RowColumnBelowOne
   \<and> \<not> reference_grammar ''1A'' \<and> reference_grammar ''A0'' \<and> reference_grammar ''B2''"
proof -
  have a: "parseCellReference ''1A'' = Inl (InvalidCellReference ''1A'')" by code_simp
  have b: "parseCellReference ''A0'' = Inl (InvalidRowNumber 0)" by code_simp
  have c: "parseCellReference ''B2'' = Inr \<lparr>row = 2, column = 2\<rparr>" by code_simp
  have d: "positionToCellReference \<lparr>row = 0, column = 1\<rparr> = Inl RowColumnBelowOne" by code_simp
  from codec_errors [of "''1A''" "\<lparr>row = 0, column = 1\<rparr>"] a
  have "\<not> reference_grammar ''1A''" by simp
  moreover from codec_errors [of "''A0''" "\<lparr>row = 0, column = 1\<rparr>"] b
  have "reference_grammar ''A0''" by blast
  moreover from codec_errors [of "''B2''" "\<lparr>row = 0, column = 1\<rparr>"] c
  have "reference_grammar ''B2''" by blast
  ultimately show ?thesis using a b c d by simp
qed

section \<open>Properties of value coercion\<close>

lemma not_digit_minus: "\<not> is_digit (CHR ''-'')"
  by (simp add: is_digit_def charCodeAt_def)

lemma not_digit_point: "\<not> is_digit (CHR ''.'')"
  by (simp add: is_digit_def charCodeAt_def)

lemma digits_then_rest:
  assumes "list_all is_digit ip" "rest = [] \<or> \<not> is_digit (hd rest)"
  shows "takeWhile is_digit (ip @ rest) = ip" "dropWhile is_digit (ip @ rest) = rest"
proof -
  have t: "takeWhile is_digit rest = []" using assms(2) by (cases rest) auto
  have d: "dropWhile is_digit rest = rest" using assms(2) by (cases rest) auto
  show "takeWhile is_digit (ip @ rest) = ip"
    using assms(1) t by (induction ip) auto
  show "dropWhile is_digit (ip @ rest) = rest"
    using assms(1) d by (induction ip) auto
qed

lemma unsigned_part_signed:
  assumes "mi = [] \<or> mi = ''-''" "ip \<noteq> []" "list_all is_digit ip"
  shows "unsigned_part (mi @ ip @ rest) = ip @ rest"
proof -
  have "hd ip \<noteq> CHR ''-''"
    using assms(2,3) not_digit_minus by (cases ip) auto
  then show ?thesis
    using assms(1,2) by (cases ip) (auto simp: unsigned_part_def)
qed

lemma number_pattern_parts:
  assumes "mi = [] \<or> mi = ''-''" "ip \<noteq> []" "list_all is_digit ip"
    and "rest = [] \<or> (\<exists>fp. rest = CHR ''.'' # fp)"
  shows "takeWhile is_digit (unsigned_part (mi @ ip @ rest)) = ip"
    and "fraction_part (mi @ ip @ rest) = (if rest = [] then [] else tl rest)"
proof -
  have nd: "rest = [] \<or> \<not> is_digit (hd rest)"
    using assms(4) not_digit_point by auto
  have u: "unsigned_part (mi @ ip @ rest) = ip @ rest"
    by (rule unsigned_part_signed [OF assms(1-3)])
  show "takeWhile is_digit (unsigned_part (mi @ ip @ rest)) = ip"
    by (simp add: u digits_then_rest [OF assms(3) nd])
  show "fraction_part (mi @ ip @ rest) = (if rest = [] then [] else tl rest)"
    using assms(4) by (auto simp: fraction_part_def u digits_then_rest [OF assms(3) nd])
qed

lemma is_number_text_pattern: "is_number_text s \<longleftrightarrow> number_pattern s"
proof
  assume a: "is_number_text s"
  define mi where "mi = (if s \<noteq> [] \<and> hd s = CHR ''-'' then ''-'' else [])"
  define u where "u = unsigned_part s"
  define ip where "ip = takeWhile is_digit u"
  define rest where "rest = dropWhile is_digit u"
  have s: "s = mi @ u"
    by (cases s) (auto simp: mi_def u_def unsigned_part_def)
  have u: "u = ip @ rest" by (simp add: ip_def rest_def)
  have ip: "ip \<noteq> []" "list_all is_digit ip"
    using a by (auto simp: is_number_text_def ip_def u_def list_all_iff dest: set_takeWhileD)
  have fp: "list_all is_digit (if rest \<noteq> [] \<and> hd rest = CHR ''.'' then tl rest else rest)"
    using a by (simp only: is_number_text_def fraction_part_def rest_def u_def Let_def)
  have nd: "rest = [] \<or> \<not> is_digit (hd rest)"
    unfolding rest_def using hd_dropWhile [of is_digit u] by blast
  have "rest = [] \<or> (\<exists>fp. rest = CHR ''.'' # fp \<and> list_all is_digit fp)"
  proof (cases rest)
    case Nil
    then show ?thesis by simp
  next
    case (Cons c cs)
    show ?thesis
    proof (cases "c = CHR ''.''")
      case True
      then show ?thesis using fp Cons by simp
    next
      case False
      then have "is_digit c" using fp Cons by simp
      then show ?thesis using nd Cons by simp
    qed
  qed
  then show "number_pattern s"
    unfolding number_pattern_def using s u ip mi_def by (intro exI [of _ mi] exI [of _ ip] exI [of _ rest]) auto
next
  assume "number_pattern s"
  then obtain mi ip rest where s: "s = mi @ ip @ rest" and sg: "mi = [] \<or> mi = ''-''"
    and ip: "ip \<noteq> []" "list_all is_digit ip"
    and rest: "rest = [] \<or> (\<exists>fp. rest = CHR ''.'' # fp \<and> list_all is_digit fp)"
    unfolding number_pattern_def by blast
  have r': "rest = [] \<or> (\<exists>fp. rest = CHR ''.'' # fp)" using rest by blast
  show "is_number_text s"
    unfolding is_number_text_def s
    using number_pattern_parts [OF sg ip r'] ip rest by auto
qed

lemma Number_not_NaN: "Number s \<noteq> NaN"
  by (simp add: Number_def Let_def)

lemma charCodeAt_simps:
  "charCodeAt (CHR ''0'') = 48" "charCodeAt (CHR ''1'') = 49" "charCodeAt (CHR ''2'') = 50"
  "charCodeAt (CHR ''3'') = 51" "charCodeAt (CHR ''4'') = 52" "charCodeAt (CHR ''5'') = 53"
  "charCodeAt (CHR ''6'') = 54" "charCodeAt (CHR ''7'') = 55" "charCodeAt (CHR ''8'') = 56"
  "charCodeAt (CHR ''9'') = 57" "charCodeAt (CHR ''.'') = 46" "charCodeAt (CHR ''-'') = 45"
  by (simp_all add: charCodeAt_def)

lemmas Number_eval =
  Number_def unsigned_part_def fraction_part_def is_digit_def charCodeAt_simps parseInt_def Let_def

lemma Number_finite_or_overflow:
  "(\<exists>q. Number s = Finite q) \<or> Number s = PosInfinity \<or> Number s = NegInfinity"
  by (simp add: Number_def Let_def)

text \<open>
  C6 (amended): \<open>parseValue\<close> returns null for the empty string; otherwise the number
  \<open>Number(s)\<close>, which is never NaN, exactly when the string is an optional minus sign,
  digits, and then nothing or a point followed by any number of digits; otherwise a
  boolean when the lower-cased string is \<open>true\<close> or \<open>false\<close>; otherwise the string
  itself. \<open>True\<close> becomes the boolean, \<open>NaN\<close> and \<open>Infinity\<close> stay strings.
\<close>

theorem parseValue_cases:
  "parseValue [] = VNull
   \<and> (s \<noteq> [] \<and> number_pattern s \<longrightarrow> parseValue s = VNum (Number s) \<and> Number s \<noteq> NaN)
   \<and> (s \<noteq> [] \<and> \<not> number_pattern s \<and> toLowerCase s = ''true'' \<longrightarrow> parseValue s = VBool True)
   \<and> (s \<noteq> [] \<and> \<not> number_pattern s \<and> toLowerCase s = ''false'' \<longrightarrow> parseValue s = VBool False)
   \<and> (s \<noteq> [] \<and> \<not> number_pattern s \<and> toLowerCase s \<noteq> ''true'' \<and> toLowerCase s \<noteq> ''false''
        \<longrightarrow> parseValue s = VStr s)
   \<and> parseValue ''True'' = VBool True
   \<and> parseValue ''NaN'' = VStr ''NaN''
   \<and> parseValue ''Infinity'' = VStr ''Infinity''"
proof -
  have c: "parseValue ''True'' = VBool True \<and> parseValue ''NaN'' = VStr ''NaN''
      \<and> parseValue ''Infinity'' = VStr ''Infinity''"
    by code_simp
  show ?thesis
    using c by (simp add: parseValue_def is_number_text_pattern Number_not_NaN isNaN_def Let_def)
qed

theorem parseValue_cases_witness:
  "number_pattern ''3.14'' \<and> parseValue ''3.14'' = VNum (Finite (314 / 100))
   \<and> \<not> number_pattern ''TRUE'' \<and> toLowerCase ''TRUE'' = ''true'' \<and> parseValue ''TRUE'' = VBool True
   \<and> \<not> number_pattern ''False'' \<and> toLowerCase ''False'' = ''false'' \<and> parseValue ''False'' = VBool False
   \<and> \<not> number_pattern ''42abc'' \<and> parseValue ''42abc'' = VStr ''42abc''"
proof -
  have n1: "number_pattern ''3.14''"
    unfolding is_number_text_pattern [symmetric] by code_simp
  have n2: "\<not> number_pattern ''TRUE''"
    unfolding is_number_text_pattern [symmetric] by code_simp
  have n3: "\<not> number_pattern ''False''"
    unfolding is_number_text_pattern [symmetric] by code_simp
  have n4: "\<not> number_pattern ''42abc''"
    unfolding is_number_text_pattern [symmetric] by code_simp
  have v: "Number ''3.14'' = Finite (314 / 100)" by (simp add: Number_eval)
  have l2: "toLowerCase ''TRUE'' = ''true''" by code_simp
  have l3: "toLowerCase ''False'' = ''false''" by code_simp
  have l4: "toLowerCase ''42abc'' \<noteq> ''true''" "toLowerCase ''42abc'' \<noteq> ''false''" by code_simp+
  from parseValue_cases [of "''3.14''"] n1 v
  have p1: "parseValue ''3.14'' = VNum (Finite (314 / 100))" by simp
  from parseValue_cases [of "''TRUE''"] n2 l2
  have p2: "parseValue ''TRUE'' = VBool True" by simp
  from parseValue_cases [of "''False''"] n3 l3
  have p3: "parseValue ''False'' = VBool False" by simp
  from parseValue_cases [of "''42abc''"] n4 l4
  have p4: "parseValue ''42abc'' = VStr ''42abc''" by simp
  show ?thesis by (intro conjI n1 p1 n2 l2 p2 n3 l3 p3 n4 p4)
qed

lemma claimed_grammar_no_final_point:
  "claimed_number_grammar s \<Longrightarrow> s \<noteq> [] \<and> last s \<noteq> CHR ''.''"
proof -
  assume "claimed_number_grammar s"
  then obtain mi ip rest where s: "s = mi @ ip @ rest"
    and ip: "ip \<noteq> []" "list_all is_digit ip"
    and rest: "rest = [] \<or> (\<exists>fp. rest = CHR ''.'' # fp \<and> fp \<noteq> [] \<and> list_all is_digit fp)"
    unfolding claimed_number_grammar_def by blast
  have d: "is_digit (last s)"
  proof (cases "rest = []")
    case True
    then have "last s = last ip" using s ip by simp
    moreover have "last ip \<in> set ip" using ip by simp
    ultimately show ?thesis using ip by (simp add: list_all_iff)
  next
    case False
    then obtain fp where fp: "rest = CHR ''.'' # fp" "fp \<noteq> []" "list_all is_digit fp"
      using rest by blast
    then have "last s = last fp" using s by simp
    moreover have "last fp \<in> set fp" using fp by simp
    ultimately show ?thesis using fp by (simp add: list_all_iff)
  qed
  then have "last s \<noteq> CHR ''.''" using not_digit_point by auto
  moreover have "s \<noteq> []" using s ip by simp
  ultimately show ?thesis by simp
qed

text \<open>
  The claim as stated fails on digits followed by a bare point: \<open>5.\<close> is outside the
  claimed grammar and still becomes the number 5.
\<close>

theorem parseValue_counterexample:
  "parseValue ''5.'' = VNum (Finite 5) \<and> \<not> claimed_number_grammar ''5.''"
proof -
  have "parseValue ''5.'' = VNum (Finite 5)"
    by (simp add: parseValue_def is_number_text_def isNaN_def Number_eval)
  moreover have "\<not> claimed_number_grammar ''5.''"
    using claimed_grammar_no_final_point [of "''5.''"] by auto
  ultimately show ?thesis by simp
qed

section \<open>Properties of the table\<close>

lemma first_invalid_None: "first_invalid ks = None \<longleftrightarrow> list_all isValidCellReference ks"
  by (auto simp: first_invalid_def find_None_iff list_all_iff)

lemma first_invalid_Some:
  "first_invalid ks = Some k \<Longrightarrow> k \<in> set ks \<and> \<not> isValidCellReference k"
  by (auto simp: first_invalid_def find_Some_iff)

lemma keys_obj_set: "fst ` set (obj_set k v d) = insert k (fst ` set d)"
  by (simp add: obj_set_def dom_update)

lemma map_of_obj_set: "map_of (obj_set k v d) = (map_of d)(k \<mapsto> v)"
  by (simp add: obj_set_def update_conv')

lemma distinct_obj_set: "distinct (map fst d) \<Longrightarrow> distinct (map fst (obj_set k v d))"
  by (simp add: obj_set_def distinct_update)

lemma map_of_object_assign:
  "map_of (object_assign d cellData) = map_of d ++ map_of (rev cellData)"
  unfolding object_assign_def
proof (induction cellData arbitrary: d)
  case Nil
  then show ?case by simp
next
  case (Cons a cellData)
  obtain k v where a: "a = (k, v)" by (cases a)
  show ?case
    by (simp add: a Cons.IH map_of_obj_set map_add_upd_left map_add_def fun_eq_iff
        split: option.splits)
qed


lemma distinct_object_assign:
  "distinct (map fst d) \<Longrightarrow> distinct (map fst (object_assign d cellData))"
  unfolding object_assign_def
  by (induction cellData arbitrary: d) (auto simp: distinct_obj_set)











lemma map_of_rev_distinct: "distinct (map fst xs) \<Longrightarrow> map_of (rev xs) = map_of xs"
  by (subst map_of_inject_set) (simp_all add: rev_map [symmetric])

text \<open>
  C3: when some key of the mapping passed to \<open>set\<close> is not a valid cell reference, the
  call throws the invalid-reference error for such a key and the table, hence its size,
  is unchanged; when every key is valid, the call returns and every pair of the mapping
  is stored, the other cells keeping their values.
\<close>

theorem set_all_or_nothing:
  "((\<exists>k \<in> fst ` set cellData. \<not> isValidCellReference k) \<longrightarrow>
      (\<exists>k \<in> fst ` set cellData. \<not> isValidCellReference k
         \<and> fst (set_A1 cellData d) = Inl (InvalidCellReference k))
      \<and> snd (set_A1 cellData d) = d
      \<and> size_A1 (snd (set_A1 cellData d)) = size_A1 d)
   \<and> ((\<forall>k \<in> fst ` set cellData. isValidCellReference k) \<and> distinct (map fst cellData) \<longrightarrow>
      fst (set_A1 cellData d) = Inr ()
      \<and> (\<forall>(k, v) \<in> set cellData. obj_get (snd (set_A1 cellData d)) k = v)
      \<and> (\<forall>k. k \<notin> fst ` set cellData \<longrightarrow> obj_get (snd (set_A1 cellData d)) k = obj_get d k))"
proof (intro conjI impI)
  assume "\<exists>k \<in> fst ` set cellData. \<not> isValidCellReference k"
  then have "first_invalid (map fst cellData) \<noteq> None"
    by (auto simp: first_invalid_None list_all_iff)
  then obtain k where k: "first_invalid (map fst cellData) = Some k" by auto
  from first_invalid_Some [OF k] have "k \<in> fst ` set cellData" "\<not> isValidCellReference k"
    by auto
  then show "\<exists>k \<in> fst ` set cellData. \<not> isValidCellReference k
         \<and> fst (set_A1 cellData d) = Inl (InvalidCellReference k)"
    using k by (auto simp: set_A1_def)
  show "snd (set_A1 cellData d) = d" using k by (simp add: set_A1_def)
  then show "size_A1 (snd (set_A1 cellData d)) = size_A1 d" by simp
next
  assume a: "(\<forall>k \<in> fst ` set cellData. isValidCellReference k) \<and> distinct (map fst cellData)"
  then have n: "first_invalid (map fst cellData) = None"
    by (auto simp: first_invalid_None list_all_iff)
  have s: "set_A1 cellData d = (Inr (), object_assign d cellData)"
    using n by (simp add: set_A1_def)
  have m: "map_of (object_assign d cellData) = map_of d ++ map_of cellData"
    using a by (simp add: map_of_object_assign map_of_rev_distinct)
  show "fst (set_A1 cellData d) = Inr ()" by (simp add: s)
  show "\<forall>(k, v) \<in> set cellData. obj_get (snd (set_A1 cellData d)) k = v"
    using a by (auto simp: s obj_get_def m map_add_def split: option.splits)
  show "\<forall>k. k \<notin> fst ` set cellData \<longrightarrow> obj_get (snd (set_A1 cellData d)) k = obj_get d k"
  proof (intro allI impI)
    fix k assume "k \<notin> fst ` set cellData"
    then have "map_of cellData k = None" by (simp add: map_of_eq_None_iff)
    then show "obj_get (snd (set_A1 cellData d)) k = obj_get d k"
      by (simp add: s obj_get_def m map_add_def)
  qed
qed

theorem set_all_or_nothing_witness:
  "\<not> isValidCellReference ''invalid''
   \<and> set_A1 [(''A1'', VNum (Finite 1)), (''invalid'', VNum (Finite 2))] [(''B2'', VStr ''x'')]
       = (Inl (InvalidCellReference ''invalid''), [(''B2'', VStr ''x'')])
   \<and> isValidCellReference ''A1'' \<and> isValidCellReference ''C3''
   \<and> fst (set_A1 [(''A1'', VNum (Finite 1)), (''C3'', VBool True)] [(''B2'', VStr ''x'')]) = Inr ()
   \<and> obj_get (snd (set_A1 [(''A1'', VNum (Finite 1)), (''C3'', VBool True)] [(''B2'', VStr ''x'')])) ''C3''
       = VBool True
   \<and> obj_get (snd (set_A1 [(''A1'', VNum (Finite 1)), (''C3'', VBool True)] [(''B2'', VStr ''x'')])) ''B2''
       = VStr ''x''"
proof -
  have i: "\<not> isValidCellReference ''invalid''" by code_simp
  have a: "isValidCellReference ''A1''" and c: "isValidCellReference ''C3''" by code_simp+
  have e: "first_invalid [''A1'', ''invalid''] = Some ''invalid''"
    using i a by (simp add: first_invalid_def)
  from set_all_or_nothing [of "[(''A1'', VNum (Finite 1)), (''invalid'', VNum (Finite 2))]"
      "[(''B2'', VStr ''x'')]"] i
  have "snd (set_A1 [(''A1'', VNum (Finite 1)), (''invalid'', VNum (Finite 2))] [(''B2'', VStr ''x'')])
      = [(''B2'', VStr ''x'')]"
    by simp
  then have bad: "set_A1 [(''A1'', VNum (Finite 1)), (''invalid'', VNum (Finite 2))] [(''B2'', VStr ''x'')]
       = (Inl (InvalidCellReference ''invalid''), [(''B2'', VStr ''x'')])"
    using e by (simp add: set_A1_def)
  from set_all_or_nothing [of "[(''A1'', VNum (Finite 1)), (''C3'', VBool True)]"
      "[(''B2'', VStr ''x'')]"] a c
  have good: "fst (set_A1 [(''A1'', VNum (Finite 1)), (''C3'', VBool True)] [(''B2'', VStr ''x'')]) = Inr ()"
    "obj_get (snd (set_A1 [(''A1'', VNum (Finite 1)), (''C3'', VBool True)] [(''B2'', VStr ''x'')])) ''C3''
       = VBool True"
    "obj_get (snd (set_A1 [(''A1'', VNum (Finite 1)), (''C3'', VBool True)] [(''B2'', VStr ''x'')])) ''B2''
       = VStr ''x''"
    by (simp_all add: obj_get_def)
  show ?thesis by (intro conjI i bad a c good)
qed

text \<open>
  C10: when the constructor argument has a key \<open>data\<close>, the instance is built from the
  value of that property alone: the result is the one for the argument without its other
  keys, it is the empty table when the value is falsy, and when the value is an object
  only the keys of that object are validated and stored.
\<close>

theorem constructor_options_form:
  "''data'' \<in> fst ` set obj \<Longrightarrow>
     constructor (Some obj) = constructor (Some [(''data'', obj_get obj ''data'')])
     \<and> (\<not> truthy (obj_get obj ''data'') \<longrightarrow> constructor (Some obj) = Inr [])
     \<and> (\<forall>ps. obj_get obj ''data'' = VObj ps \<longrightarrow>
           constructor (Some obj) =
             (case first_invalid (map fst ps) of
                Some k \<Rightarrow> Inl (InvalidCellReference k)
              | None \<Rightarrow> Inr ps))"
  by (auto simp: constructor_def obj_get_def validateCellReferences_def first_invalid_def
      truthy_def spread_def split: option.splits)


theorem constructor_options_form_witness:
  "''data'' \<in> fst ` set [(''Z9'', VStr ''ignored''), (''data'', VObj [(''A1'', VStr ''test'')]), (''not a ref'', VNull)]
   \<and> constructor (Some [(''Z9'', VStr ''ignored''), (''data'', VObj [(''A1'', VStr ''test'')]), (''not a ref'', VNull)])
       = Inr [(''A1'', VStr ''test'')]"
proof -
  have k: "''data'' \<in> fst ` set [(''Z9'', VStr ''ignored''), (''data'', VObj [(''A1'', VStr ''test'')]), (''not a ref'', VNull)]"
    by simp
  have g: "obj_get [(''Z9'', VStr ''ignored''), (''data'', VObj [(''A1'', VStr ''test'')]), (''not a ref'', VNull)] ''data''
      = VObj [(''A1'', VStr ''test'')]"
    by (simp add: obj_get_def)
  have a: "isValidCellReference ''A1''" by code_simp
  have f: "first_invalid (map fst [(''A1'', VStr ''test'')]) = None"
    using a by (simp add: first_invalid_def)
  from constructor_options_form [OF k]
  have "constructor (Some [(''Z9'', VStr ''ignored''), (''data'', VObj [(''A1'', VStr ''test'')]), (''not a ref'', VNull)])
       = (case first_invalid (map fst [(''A1'', VStr ''test'')]) of
            Some k \<Rightarrow> Inl (InvalidCellReference k)
          | None \<Rightarrow> Inr [(''A1'', VStr ''test'')])"
    using g by blast
  then have "constructor (Some [(''Z9'', VStr ''ignored''), (''data'', VObj [(''A1'', VStr ''test'')]), (''not a ref'', VNull)])
       = Inr [(''A1'', VStr ''test'')]"
    by (simp only: f option.case)
  then show ?thesis using k by blast
qed

lemma length_update_delete:
  "distinct (map fst d) \<Longrightarrow> length (AList.update k v d) = Suc (length (AList.delete k d))"
proof (induction d)
  case Nil
  then show ?case by simp
next
  case (Cons a d)
  obtain k' v' where a: "a = (k', v')" by (cases a)
  show ?case
  proof (cases "k' = k")
    case True
    then have "k \<notin> fst ` set d" using Cons.prems a by auto
    then show ?thesis using True a by simp
  next
    case False
    then show ?thesis using Cons a by simp
  qed
qed

lemma update_member: "(k, v) \<in> set (AList.update k v al)"
  by (induction al) auto

lemma getBoundingBox_nonempty: "d \<noteq> [] \<Longrightarrow> getBoundingBox d \<noteq> Inr None"
  by (simp add: getBoundingBox_def Let_def split: sum.splits)

text \<open>
  C9 (amended): null is stored. For every table and every valid reference \<open>r\<close>,
  \<open>setItem(r, null)\<close> or \<open>setItem(r, undefined)\<close> returns and keeps a key \<open>r\<close>
  holding that value: \<open>getItem(r)\<close> returns it, \<open>r\<close> is among the cell references,
  \<open>size()\<close> is one more than for the table without an entry at \<open>r\<close>, and the table
  is not empty. The table without an entry at \<open>r\<close> reads undefined there and does not
  list \<open>r\<close>. The two agree on the cell itself in the exports: its CSV field is empty
  and \<open>toArray\<close> reads it as null. The compact export lists the stored pair and the
  bounding box is not none.
\<close>

theorem null_is_stored:
  "isValidCellReference r \<and> distinct (map fst d) \<and> (v = VNull \<or> v = VUndefined) \<longrightarrow>
     fst (setItem r v d) = Inr ()
     \<and> getItem r (snd (setItem r v d)) = Inr v
     \<and> r \<in> set (getCellReferences (snd (setItem r v d)))
     \<and> size_A1 (snd (setItem r v d)) = size_A1 (snd (removeItem r d)) + 1
     \<and> \<not> isEmpty (snd (setItem r v d))
     \<and> getItem r (snd (removeItem r d)) = Inr VUndefined
     \<and> r \<notin> set (getCellReferences (snd (removeItem r d)))
     \<and> escapeCsvValue (obj_get (snd (setItem r v d)) r) = []
     \<and> escapeCsvValue (obj_get (snd (removeItem r d)) r) = []
     \<and> nullish_to_null (obj_get (snd (setItem r v d)) r) = VNull
     \<and> nullish_to_null (obj_get (snd (removeItem r d)) r) = VNull
     \<and> (r, v) \<in> set (toCompactArray (snd (setItem r v d)))
     \<and> getBoundingBox (snd (setItem r v d)) \<noteq> Inr None"
proof (intro impI)
  assume a: "isValidCellReference r \<and> distinct (map fst d) \<and> (v = VNull \<or> v = VUndefined)"
  then have r: "isValidCellReference r" and dd: "distinct (map fst d)" by simp_all
  have s: "setItem r v d = (Inr (), obj_set r v d)" using r by (simp add: setItem_def)
  have rm: "removeItem r d = (Inr (), obj_delete r d)" using r by (simp add: removeItem_def)
  have g1: "obj_get (obj_set r v d) r = v"
    by (simp add: obj_get_def map_of_obj_set)
  have g2: "obj_get (obj_delete r d) r = VUndefined"
    by (simp add: obj_get_def obj_delete_def delete_conv')
  have k1: "r \<in> fst ` set (obj_set r v d)" by (simp add: keys_obj_set)
  have k2: "r \<notin> fst ` set (obj_delete r d)"
    by (simp add: obj_delete_def delete_notin_dom)
  have l: "length (obj_set r v d) = Suc (length (obj_delete r d))"
    using dd by (simp add: obj_set_def obj_delete_def length_update_delete)
  have c1: "(r, v) \<in> set (obj_set r v d)"
    by (simp add: obj_set_def update_member)
  have b1: "getBoundingBox (obj_set r v d) \<noteq> Inr None"
    by (rule getBoundingBox_nonempty) (simp add: obj_set_def)
  show "fst (setItem r v d) = Inr ()
     \<and> getItem r (snd (setItem r v d)) = Inr v
     \<and> r \<in> set (getCellReferences (snd (setItem r v d)))
     \<and> size_A1 (snd (setItem r v d)) = size_A1 (snd (removeItem r d)) + 1
     \<and> \<not> isEmpty (snd (setItem r v d))
     \<and> getItem r (snd (removeItem r d)) = Inr VUndefined
     \<and> r \<notin> set (getCellReferences (snd (removeItem r d)))
     \<and> escapeCsvValue (obj_get (snd (setItem r v d)) r) = []
     \<and> escapeCsvValue (obj_get (snd (removeItem r d)) r) = []
     \<and> nullish_to_null (obj_get (snd (setItem r v d)) r) = VNull
     \<and> nullish_to_null (obj_get (snd (removeItem r d)) r) = VNull
     \<and> (r, v) \<in> set (toCompactArray (snd (setItem r v d)))
     \<and> getBoundingBox (snd (setItem r v d)) \<noteq> Inr None"
    using a k1 k2 l c1 b1
    by (auto simp: s rm getItem_def g1 g2 getCellReferences_def size_A1_def isEmpty_def
        escapeCsvValue_def nullish_to_null_def toCompactArray_def)
qed

theorem null_is_stored_witness:
  "isValidCellReference ''B2'' \<and> distinct (map fst [(''A1'', VStr ''x'')])
   \<and> getItem ''B2'' (snd (setItem ''B2'' VNull [(''A1'', VStr ''x'')])) = Inr VNull
   \<and> size_A1 (snd (setItem ''B2'' VNull [(''A1'', VStr ''x'')])) = 2
   \<and> size_A1 (snd (removeItem ''B2'' [(''A1'', VStr ''x'')])) = 1"
proof -
  have v: "isValidCellReference ''B2''" by code_simp
  have d: "distinct (map fst [(''A1'', VStr ''x'')])" by simp
  have r: "size_A1 (snd (removeItem ''B2'' [(''A1'', VStr ''x'')])) = 1"
    using v by (simp add: removeItem_def obj_delete_def size_A1_def)
  from null_is_stored [of "''B2''" "[(''A1'', VStr ''x'')]" VNull] v d
  have "getItem ''B2'' (snd (setItem ''B2'' VNull [(''A1'', VStr ''x'')])) = Inr VNull"
    and "size_A1 (snd (setItem ''B2'' VNull [(''A1'', VStr ''x'')]))
       = size_A1 (snd (removeItem ''B2'' [(''A1'', VStr ''x'')])) + 1"
    by blast+
  then show ?thesis using v d r by simp
qed

text \<open>
  The claim as stated fails on the empty table: after \<open>setItem("A1", null)\<close> the table
  differs from the empty one in \<open>getItem\<close>, \<open>size\<close>, \<open>isEmpty\<close>, the bounding box,
  \<open>toArray\<close> and \<open>toCompactArray\<close>.
\<close>

theorem null_is_absence_counterexample:
  "isValidCellReference ''A1''
   \<and> fst (setItem ''A1'' VNull []) = Inr ()
   \<and> getItem ''A1'' (snd (setItem ''A1'' VNull [])) = Inr VNull
   \<and> getItem ''A1'' [] = Inr VUndefined
   \<and> size_A1 (snd (setItem ''A1'' VNull [])) = 1 \<and> size_A1 [] = 0
   \<and> \<not> isEmpty (snd (setItem ''A1'' VNull [])) \<and> isEmpty []
   \<and> getBoundingBox (snd (setItem ''A1'' VNull []))
       = Inr (Some \<lparr>minRow = 1, maxRow = 1, minCol = 1, maxCol = 1\<rparr>)
   \<and> getBoundingBox [] = Inr None
   \<and> toArray True (snd (setItem ''A1'' VNull [])) = Inr [[VNull]]
   \<and> toArray True [] = Inr []
   \<and> toCompactArray (snd (setItem ''A1'' VNull [])) = [(''A1'', VNull)]
   \<and> toCompactArray [] = []"
  by code_simp

lemma trim_empty: "trim s = [] \<longleftrightarrow> list_all is_space s"
proof -
  have "trim s = [] \<longleftrightarrow> (\<forall>x \<in> set (dropWhile is_space s). is_space x)"
    by (simp add: trim_def dropWhile_eq_Nil_conv)
  also have "\<dots> \<longleftrightarrow> dropWhile is_space s = []"
  proof
    assume a: "\<forall>x \<in> set (dropWhile is_space s). is_space x"
    show "dropWhile is_space s = []"
    proof (rule ccontr)
      assume n: "dropWhile is_space s \<noteq> []"
      then have "\<not> is_space (hd (dropWhile is_space s))" by (rule hd_dropWhile)
      moreover have "hd (dropWhile is_space s) \<in> set (dropWhile is_space s)" using n by simp
      ultimately show False using a by blast
    qed
  next
    assume "dropWhile is_space s = []"
    then show "\<forall>x \<in> set (dropWhile is_space s). is_space x" by (simp only: set_simps ball_empty)
  qed
  also have "\<dots> \<longleftrightarrow> list_all is_space s"
    by (simp add: dropWhile_eq_Nil_conv list_all_iff)
  finally show ?thesis .
qed

lemma split_lines_nonempty: "split_lines s \<noteq> []"
  by (induction s rule: split_lines.induct) (auto split: list.splits)

lemma split_lines_member:
  "c \<in> set s \<Longrightarrow> c \<noteq> CHR 0x0A \<Longrightarrow> c \<noteq> CHR 0x0D \<Longrightarrow> \<exists>l \<in> set (split_lines s). c \<in> set l"
proof (induction s rule: split_lines.induct)
  case 1
  then show ?case by simp
next
  case (2 x xs)
  show ?case
  proof (cases "x = CHR 0x0A")
    case True
    then show ?thesis using 2 by auto
  next
    case nl: False
    show ?thesis
    proof (cases "x = CHR 0x0D \<and> xs \<noteq> [] \<and> hd xs = CHR 0x0A")
      case True
      then have "c \<in> set (tl xs)" using "2.prems" by (cases xs) auto
      then show ?thesis using 2 nl True by auto
    next
      case False
      obtain l ls where sl: "split_lines xs = l # ls"
        using split_lines_nonempty [of xs] by (cases "split_lines xs") auto
      show ?thesis
      proof (cases "c = x")
        case True
        then show ?thesis using nl False sl by auto
      next
        case ne: False
        then have "c \<in> set xs" using "2.prems" by simp
        then have "\<exists>l \<in> set (split_lines xs). c \<in> set l"
          using "2.IH"(3) nl False "2.prems" by blast
        then show ?thesis using nl False sl by auto
      qed
    qed
  qed
qed

lemma parseCsvString_empty: "parseCsvString s sep = [] \<longleftrightarrow> list_all is_space s"
proof
  assume "list_all is_space s"
  then show "parseCsvString s sep = []" by (simp add: parseCsvString_def trim_empty)
next
  assume e: "parseCsvString s sep = []"
  show "list_all is_space s"
  proof (rule ccontr)
    assume n: "\<not> list_all is_space s"
    then obtain c where c: "c \<in> set s" "\<not> is_space c" by (auto simp: list_all_iff)
    then have "c \<noteq> CHR 0x0A" "c \<noteq> CHR 0x0D"
      by (auto simp: is_space_def charCodeAt_def)
    with c obtain l where l: "l \<in> set (split_lines s)" "c \<in> set l"
      using split_lines_member by blast
    then have "trim l \<noteq> []" using c by (auto simp: trim_empty list_all_iff)
    with l have "filter (\<lambda>line. trim line \<noteq> []) (split_lines s) \<noteq> []"
      by (auto simp: filter_empty_conv)
    with n e show False by (simp add: parseCsvString_def trim_empty)
  qed
qed

text \<open>
  C4 (amended): when the text has a character that is not white space,
  \<open>loadFromCSVString\<close> clears the table before it stores the imported cells: the call
  ends as it does on an empty table, whatever the table held. When the text is empty or
  all white space, the call returns at once and leaves the table as it was.
\<close>

theorem load_replaces:
  "(\<not> list_all is_space csvString \<longrightarrow>
      loadFromCSVString csvString options d = loadFromCSVString csvString options [])
   \<and> (list_all is_space csvString \<longrightarrow>
      loadFromCSVString csvString options d = (Inr (), d))"
  using parseCsvString_empty [of csvString "with_default '','' (separator options)"]
  by (simp add: loadFromCSVString_def Let_def clear_def)

theorem load_replaces_witness:
  "\<not> list_all is_space ''a,b''
   \<and> loadFromCSVString ''a,b'' no_import_options [(''Z1'', VStr ''existing'')]
       = (Inr (), [(''A1'', VStr ''a''), (''B1'', VStr ''b'')])
   \<and> list_all is_space '' ''
   \<and> loadFromCSVString '' '' no_import_options [(''Z1'', VStr ''existing'')]
       = (Inr (), [(''Z1'', VStr ''existing'')])"
proof -
  have n: "\<not> list_all is_space ''a,b''" by code_simp
  have s: "list_all is_space '' ''" by code_simp
  have e: "loadFromCSVString ''a,b'' no_import_options [] = (Inr (), [(''A1'', VStr ''a''), (''B1'', VStr ''b'')])"
    by code_simp
  from load_replaces [of "''a,b''" no_import_options "[(''Z1'', VStr ''existing'')]"] n e
  have a: "loadFromCSVString ''a,b'' no_import_options [(''Z1'', VStr ''existing'')]
       = (Inr (), [(''A1'', VStr ''a''), (''B1'', VStr ''b'')])"
    by simp
  from load_replaces [of "'' ''" no_import_options "[(''Z1'', VStr ''existing'')]"] s
  have b: "loadFromCSVString '' '' no_import_options [(''Z1'', VStr ''existing'')]
       = (Inr (), [(''Z1'', VStr ''existing'')])"
    by simp
  show ?thesis by (intro conjI n a s b)
qed

text \<open>
  The claim as stated fails on the empty text: the call returns before it clears, and the
  key stored before is still there.
\<close>

theorem load_replaces_counterexample:
  "loadFromCSVString [] no_import_options [(''Z1'', VStr ''existing'')]
     = (Inr (), [(''Z1'', VStr ''existing'')])
   \<and> loadFromCSVString [] no_import_options [] = (Inr (), [])"
  by code_simp

text \<open>
  C5: the writer looks for a comma whatever the separator is. With the separator \<open>;\<close> a
  value holding \<open>;\<close> is written without quotes, and reading the line back with the same
  separator gives two cells; a value holding a comma is quoted although the comma does
  not separate.
\<close>

theorem escape_ignores_separator:
  "escapeCsvValue (VStr ''a;b'') = ''a;b''
   \<and> toCSVString (no_csv_options\<lparr>separator := Some '';''\<rparr>) [(''A1'', VStr ''a;b'')] = Inr ''a;b''
   \<and> fromCSVString ''a;b'' (no_import_options\<lparr>separator := Some '';''\<rparr>)
       = Inr [(''A1'', VStr ''a''), (''B1'', VStr ''b'')]
   \<and> toCSVString (no_csv_options\<lparr>separator := Some '';''\<rparr>) [(''A1'', VStr ''a,b'')]
       = Inr (CHR 0x22 # ''a,b'' @ [CHR 0x22])"
  by code_simp

section \<open>Properties of the CSV round trip\<close>























































text \<open>
  Each condition of the round trip is needed. A key with a leading zero is never read
  by the export; an unoccupied row of a one-column table is an empty line, which the
  import skips; a quoted line feed is split into two rows; a string that spells a
  boolean comes back as the boolean, and the empty string does not come back.
\<close>

lemma csv_roundtrip_conditions:
  "toCSVString no_csv_options [(''A01'', VStr ''x'')] = Inr []
   \<and> toCSVString no_csv_options [(''A1'', VStr ''x''), (''A3'', VStr ''y'')]
       = Inr (''x'' @ [CHR 0x0A, CHR 0x0A] @ ''y'')
   \<and> fromCSVString (''x'' @ [CHR 0x0A, CHR 0x0A] @ ''y'') no_import_options
       = Inr [(''A1'', VStr ''x''), (''A2'', VStr ''y'')]
   \<and> toCSVString no_csv_options [(''A1'', VStr (''a'' @ [CHR 0x0A] @ ''b''))]
       = Inr ([CHR 0x22] @ ''a'' @ [CHR 0x0A] @ ''b'' @ [CHR 0x22])
   \<and> fromCSVString ([CHR 0x22] @ ''a'' @ [CHR 0x0A] @ ''b'' @ [CHR 0x22]) no_import_options
       = Inr [(''A1'', VStr ''a''), (''A2'', VStr ''b'')]
   \<and> toCSVString no_csv_options [(''A1'', VStr ''TRUE'')] = Inr ''TRUE''
   \<and> fromCSVString ''TRUE'' no_import_options = Inr [(''A1'', VBool True)]
   \<and> toCSVString no_csv_options [(''A1'', VStr []), (''B1'', VStr ''x'')] = Inr '',x''
   \<and> fromCSVString '',x'' no_import_options = Inr [(''B1'', VStr ''x'')]"
  by code_simp




end
